theory Spec2Isabelle
  imports
    Complex_Main
    "HOL-Library.AList"
    "HOL-Library.Char_ord"
    "HOL-Library.List_Lexorder"
begin

section \<open>The Yake backend of Annif: index construction and keyphrase matching\<close>

text \<open>
  A shallow embedding of \<^verbatim>\<open>annif/backend/yake.py\<close>. Every method of
  \<^verbatim>\<open>YakeBackend\<close> that takes part in building, storing and querying the label index
  is a function here, under the name it has in the source (without the leading underscore,
  which an Isabelle name cannot start with).

  Conventions of the embedding:
  \<^item> a Python \<^verbatim>\<open>str\<close> is a \<^typ>\<open>string\<close>; a character stands for a code point below 256,
    and strings are compared lexicographically by code point, as Python compares them;
  \<^item> a Python \<^verbatim>\<open>float\<close> score is a \<^typ>\<open>real\<close>: rounding, overflow, infinities and NaN
    are not modelled, so every statement about scores is one about exact arithmetic;
  \<^item> a \<^verbatim>\<open>dict\<close> is an association list in insertion order with distinct keys;
    a \<^verbatim>\<open>set\<close> of URIs is the list of its elements in the order an iteration gives them;
  \<^item> an exception is a value \<open>Inl e\<close> of the result type \<open>error + 'a\<close>.
\<close>

subsection \<open>Exceptions\<close>

text \<open>
  The exceptions the modelled code can raise: those of Python itself and the
  \<^verbatim>\<open>ConfigurationException\<close> of \<^verbatim>\<open>annif.exception\<close>, of which the model keeps the
  offending key.
\<close>

datatype error =
    ZeroDivisionError
  | ValueError
  | KeyError string
  | AttributeError
  | ConfigurationException string

text \<open>Python's \<^verbatim>\<open>a / b\<close> on floats raises \<^verbatim>\<open>ZeroDivisionError\<close> when \<open>b\<close> is zero.\<close>

definition truediv :: "real \<Rightarrow> real \<Rightarrow> error + real" where
  "truediv a b = (if b = 0 then Inl ZeroDivisionError else Inr (a / b))"

subsection \<open>Scores\<close>

text \<open>
  \<^verbatim>\<open>
  def _transform_score(self, score):
      if score < 0:
          self.debug(f'Replacing negative YAKE score {score} with zero')
          return 1.0
      return 1.0 / (score + 1)
  \<close>
\<close>

definition transform_score :: "real \<Rightarrow> error + real" where
  "transform_score score = (if score < 0 then Inr 1 else truediv 1 (score + 1))"

text \<open>
  \<^verbatim>\<open>
  def _conflate_scores(self, score1, score2):
      return score1 * score2 / (score1 * score2 + (1-score1) * (1-score2))
  \<close>
\<close>

definition conflate_scores :: "real \<Rightarrow> real \<Rightarrow> error + real" where
  "conflate_scores score1 score2 =
     truediv (score1 * score2) (score1 * score2 + (1 - score1) * (1 - score2))"

subsection \<open>Strings\<close>

abbreviation TAB :: char where "TAB \<equiv> CHR 0x09"
abbreviation LF :: char where "LF \<equiv> CHR 0x0A"
abbreviation CR :: char where "CR \<equiv> CHR 0x0D"

text \<open>
  \<^verbatim>\<open>str.isspace\<close> on the code points below 256: the ASCII white space
  \<^verbatim>\<open>\t \n \x0b \x0c \r\<close> and the blank, the separators \<^verbatim>\<open>\x1c\<close> to \<^verbatim>\<open>\x1f\<close>,
  \<^verbatim>\<open>\x85\<close> and \<^verbatim>\<open>\xa0\<close>.
\<close>

definition isspace :: "char \<Rightarrow> bool" where
  "isspace c = (of_char c \<in> {9, 10, 11, 12, 13, 28, 29, 30, 31, 32, 133, 160 :: nat})"

text \<open>\<^verbatim>\<open>s.strip()\<close>: white space removed from both ends.\<close>

definition strip :: "string \<Rightarrow> string" where
  "strip s = rev (dropWhile isspace (rev (dropWhile isspace s)))"

text \<open>
  \<^verbatim>\<open>s.split()\<close>: the maximal runs of characters that are not white space; \<open>cur\<close> is
  the word being read, reversed.
\<close>

fun split_acc :: "string \<Rightarrow> string \<Rightarrow> string list" where
  "split_acc cur [] = (if cur = [] then [] else [rev cur])"
| "split_acc cur (c # cs) =
     (if isspace c then (if cur = [] then split_acc [] cs else rev cur # split_acc [] cs)
      else split_acc (c # cur) cs)"

definition split :: "string \<Rightarrow> string list" where
  "split s = split_acc [] s"

text \<open>
  \<^verbatim>\<open>s.split(sep)\<close> for a separator of one character: every occurrence separates two
  fields, empty fields are kept, and the empty string has the one field \<^verbatim>\<open>''\<close>.
\<close>

fun split_sep_acc :: "char \<Rightarrow> string \<Rightarrow> string \<Rightarrow> string list" where
  "split_sep_acc sep cur [] = [rev cur]"
| "split_sep_acc sep cur (c # cs) =
     (if c = sep then rev cur # split_sep_acc sep [] cs else split_sep_acc sep (c # cur) cs)"

definition split_sep :: "char \<Rightarrow> string \<Rightarrow> string list" where
  "split_sep sep s = split_sep_acc sep [] s"

text \<open>\<^verbatim>\<open>sep.join(words)\<close>.\<close>

fun join :: "string \<Rightarrow> string list \<Rightarrow> string" where
  "join sep [] = []"
| "join sep [w] = w"
| "join sep (w # v # ws) = w @ sep @ join sep (v # ws)"

text \<open>
  \<^verbatim>\<open>s.lower()\<close> on the code points below 256: the letters A to Z and the Latin-1
  capitals \<^verbatim>\<open>\xc0\<close> to \<^verbatim>\<open>\xde\<close> (but the multiplication sign \<^verbatim>\<open>\xd7\<close>) move up by 32.
\<close>

definition lower_char :: "char \<Rightarrow> char" where
  "lower_char c =
     (let n = of_char c :: nat
      in if (65 \<le> n \<and> n \<le> 90) \<or> (192 \<le> n \<and> n \<le> 222 \<and> n \<noteq> 215) then char_of (n + 32) else c)"

definition lower :: "string \<Rightarrow> string" where
  "lower s = map lower_char s"

text \<open>
  \<^verbatim>\<open>for line in indexfile\<close> on a file opened in text mode: the content is cut after
  every line end, and a line end \<^verbatim>\<open>\n\<close>, \<^verbatim>\<open>\r\<close> or \<^verbatim>\<open>\r\n\<close> is read as \<^verbatim>\<open>\n\<close>
  (universal newlines). A last line without a line end is a line too. \<open>cur\<close> is the line
  being read, reversed.
\<close>

fun lines_acc :: "string \<Rightarrow> string \<Rightarrow> string list" where
  "lines_acc cur [] = (if cur = [] then [] else [rev cur])"
| "lines_acc cur (c # cs) =
     (if c = CR \<and> cs \<noteq> [] \<and> hd cs = LF then lines_acc cur cs
      else if c = LF \<or> c = CR then rev (LF # cur) # lines_acc [] cs
      else lines_acc (c # cur) cs)"

definition file_lines :: "string \<Rightarrow> string list" where
  "file_lines content = lines_acc [] content"

subsection \<open>The regular expression of the parenthesis removal\<close>

text \<open>
  \<^verbatim>\<open>re.sub(r' \(.*\)', '', label)\<close>. The pattern is a blank, an opening parenthesis, a
  greedy run \<^verbatim>\<open>.*\<close> of characters other than \<^verbatim>\<open>\n\<close>, and a closing parenthesis. A
  match at the start of \<open>s\<close> therefore exists when \<open>s\<close> starts with \<^verbatim>\<open>" ("\<close> and the rest
  of that line holds a closing parenthesis, and, the run being greedy, it ends with the
  last closing parenthesis of the line. \<open>match_parentheses\<close> is the length of that match.
\<close>

definition match_parentheses :: "string \<Rightarrow> nat option" where
  "match_parentheses s =
     (case s of
        c1 # c2 # rest \<Rightarrow>
          (let line = takeWhile (\<lambda>c. c \<noteq> LF) rest
           in if c1 = CHR '' '' \<and> c2 = CHR ''('' \<and> CHR '')'' \<in> set line
              then Some (2 + length (dropWhile (\<lambda>c. c \<noteq> CHR '')'') (rev line)))
              else None)
      | _ \<Rightarrow> None)"

lemma match_parentheses_pos: "match_parentheses s = Some n \<Longrightarrow> 0 < n"
  by (auto simp: match_parentheses_def Let_def split: list.splits if_splits)

text \<open>
  \<^verbatim>\<open>re.sub\<close> replaces the leftmost match, then goes on behind it; where no match starts,
  the character is kept.
\<close>

function sub_parentheses :: "string \<Rightarrow> string" where
  "sub_parentheses [] = []"
| "sub_parentheses (c # cs) =
     (case match_parentheses (c # cs) of
        Some n \<Rightarrow> sub_parentheses (drop n (c # cs))
      | None \<Rightarrow> c # sub_parentheses cs)"
  by pat_completeness auto
termination
  by (relation "measure length") (auto dest: match_parentheses_pos)

subsection \<open>Label normalization\<close>

text \<open>
  The word normalizer \<^verbatim>\<open>self.project.analyzer.normalize_word\<close> belongs to the analyzer of
  the project's language; it is a parameter \<open>normalize_word\<close> of the functions that call it.
\<close>

type_synonym analyzer = "string \<Rightarrow> string"

text \<open>
  \<^verbatim>\<open>
  def _lemmatize_phrase(self, phrase):
      normalized = []
      for word in phrase.split():
          normalized.append(
              self.project.analyzer.normalize_word(word).lower())
      return ' '.join(normalized)

  def _sort_phrase(self, phrase):
      words = phrase.split()
      return ' '.join(sorted(words))
  \<close>
\<close>

definition lemmatize_phrase :: "analyzer \<Rightarrow> string \<Rightarrow> string" where
  "lemmatize_phrase normalize_word phrase =
     join '' '' (map (\<lambda>word. lower (normalize_word word)) (split phrase))"

definition sort_phrase :: "string \<Rightarrow> string" where
  "sort_phrase phrase = join '' '' (sort (split phrase))"

text \<open>
  \<^verbatim>\<open>
  def _normalize_label(self, label):
      label = str(label)
      if annif.util.boolean(self.params['remove_parentheses']):
          label = re.sub(r' \(.*\)', '', label)
      lemmatized_label = self._lemmatize_phrase(label)
      return self._sort_phrase(lemmatized_label)
  \<close>
  \<open>remove_parentheses\<close> is the truth value \<^verbatim>\<open>annif.util.boolean\<close> reads from the
  parameter, \<open>label\<close> the string \<^verbatim>\<open>str(label)\<close>.
\<close>

definition normalize_label :: "analyzer \<Rightarrow> bool \<Rightarrow> string \<Rightarrow> string" where
  "normalize_label normalize_word remove_parentheses label =
     sort_phrase (lemmatize_phrase normalize_word
       (if remove_parentheses then sub_parentheses label else label))"

subsection \<open>Parameters and label types\<close>

text \<open>
  The entries of \<^verbatim>\<open>self.params\<close> the index construction reads. \<open>label_types_entry\<close> is
  \<open>None\<close> when the key \<^verbatim>\<open>'label_types'\<close> is not in the dictionary.
\<close>

record params =
  language :: string
  label_types_entry :: "string option"
  default_label_types :: "string list"
  remove_parentheses :: bool

text \<open>The predicates and objects of the vocabulary graph the backend asks for.\<close>

datatype predicate =
    RDF_type
  | OWL_deprecated
  | SKOS_prefLabel
  | SKOS_altLabel
  | SKOS_hiddenLabel
  | Predicate string

text \<open>
  \<^verbatim>\<open>
  mapping = {'pref': SKOS.prefLabel,
             'alt': SKOS.altLabel,
             'hidden': SKOS.hiddenLabel}
  \<close>
\<close>

definition mapping :: "(string \<times> predicate) list" where
  "mapping = [(''pref'', SKOS_prefLabel), (''alt'', SKOS_altLabel), (''hidden'', SKOS_hiddenLabel)]"

text \<open>
  The comprehension \<^verbatim>\<open>[mapping[lt] for lt in keys]\<close>: the first key that is not in the
  dictionary raises \<^verbatim>\<open>KeyError\<close>.
\<close>

fun lookup_all :: "string list \<Rightarrow> error + predicate list" where
  "lookup_all [] = Inr []"
| "lookup_all (k # ks) =
     (case map_of mapping k of
        None \<Rightarrow> Inl (KeyError k)
      | Some t \<Rightarrow> (case lookup_all ks of Inl e \<Rightarrow> Inl e | Inr ts \<Rightarrow> Inr (t # ts)))"

text \<open>
  \<^verbatim>\<open>
  @property
  def label_types(self):
      ...
      if 'label_types' in self.params:
          lt_entries = self.params['label_types'].split(',')
          try:
              return [mapping[lt.strip()] for lt in lt_entries]
          except KeyError as err:
              raise ConfigurationException(
                  f'invalid label type {err}', backend_id=self.backend_id)
      else:
          return [mapping[lt] for lt in self.params['default_label_types']]
  \<close>
  The \<open>ConfigurationException\<close> carries the key that was not found; the message of the
  source is \<^verbatim>\<open>invalid label type\<close> followed by that key, quoted.
\<close>

definition label_types :: "params \<Rightarrow> error + predicate list" where
  "label_types p =
     (case label_types_entry p of
        Some entry \<Rightarrow>
          (case lookup_all (map strip (split_sep CHR '','' entry)) of
             Inl (KeyError k) \<Rightarrow> Inl (ConfigurationException k)
           | r \<Rightarrow> r)
      | None \<Rightarrow> lookup_all (default_label_types p))"

subsection \<open>The vocabulary graph\<close>

text \<open>
  Modelled from the spec: the vocabulary graph is a queryable collection of labeled
  relations over concepts, asked to enumerate the concepts of a given type, to test the
  deprecated flag of a concept, and to enumerate the labels of a concept of each kind,
  every label with its language tag. The graph \<^verbatim>\<open>self.project.vocab.as_graph()\<close> of the
  source is an object of the library \<^verbatim>\<open>rdflib\<close>; here it is the list of its triples. A
  subject is the URI of a resource, so that \<^verbatim>\<open>str(concept)\<close> is the subject itself. An
  object is the class \<^verbatim>\<open>SKOS.Concept\<close>, the literal \<^verbatim>\<open>rdflib.Literal(True)\<close>, a literal with
  its text and its language tag (if it has one), or another resource.
\<close>

datatype object =
    SKOS_Concept
  | Literal_True
  | Literal string "string option"
  | Resource string

type_synonym triple = "string \<times> predicate \<times> object"
type_synonym graph = "triple list"

text \<open>\<^verbatim>\<open>graph.subjects(predicate, object)\<close> and \<^verbatim>\<open>graph.objects(subject, predicate)\<close>.\<close>

definition subjects :: "graph \<Rightarrow> predicate \<Rightarrow> object \<Rightarrow> string list" where
  "subjects g p ob = map fst (filter (\<lambda>(s', p', ob'). p' = p \<and> ob' = ob) g)"

definition objects :: "graph \<Rightarrow> string \<Rightarrow> predicate \<Rightarrow> object list" where
  "objects g s p = map (\<lambda>(s', p', ob'). ob') (filter (\<lambda>(s', p', ob'). s' = s \<and> p' = p) g)"

text \<open>
  \<^verbatim>\<open>label.language\<close>: the language tag of a literal, \<^verbatim>\<open>None\<close> when it has none; an
  object that is no literal has no such attribute. \<^verbatim>\<open>str(label)\<close> is the text of a
  literal.
\<close>

fun language_of :: "object \<Rightarrow> error + string option" where
  "language_of (Literal text lang) = Inr lang"
| "language_of Literal_True = Inr None"
| "language_of SKOS_Concept = Inl AttributeError"
| "language_of (Resource u) = Inl AttributeError"

fun str :: "object \<Rightarrow> string" where
  "str (Literal text lang) = text"
| "str Literal_True = ''true''"
| "str SKOS_Concept = ''http://www.w3.org/2004/02/skos/core#Concept''"
| "str (Resource u) = u"

text \<open>
  \<^verbatim>\<open>
  def _get_concept_labels(self, concept, label_types):
      labels = []
      for label_type in label_types:
          for label in self.graph.objects(concept, label_type):
              if label.language == self.params['language']:
                  labels.append(label)
      return labels
  \<close>
  \<open>filter_language\<close> is the inner loop.
\<close>

fun filter_language :: "string \<Rightarrow> object list \<Rightarrow> error + object list" where
  "filter_language lang [] = Inr []"
| "filter_language lang (label # rest) =
     (case language_of label of
        Inl e \<Rightarrow> Inl e
      | Inr l \<Rightarrow>
          (case filter_language lang rest of
             Inl e \<Rightarrow> Inl e
           | Inr labels \<Rightarrow> Inr (if l = Some lang then label # labels else labels)))"

fun get_concept_labels :: "params \<Rightarrow> graph \<Rightarrow> string \<Rightarrow> predicate list \<Rightarrow> error + object list" where
  "get_concept_labels p g concept [] = Inr []"
| "get_concept_labels p g concept (label_type # rest) =
     (case filter_language (language p) (objects g concept label_type) of
        Inl e \<Rightarrow> Inl e
      | Inr found \<Rightarrow>
          (case get_concept_labels p g concept rest of
             Inl e \<Rightarrow> Inl e
           | Inr labels \<Rightarrow> Inr (found @ labels)))"

subsection \<open>The index\<close>

text \<open>
  The index maps a normalized label to the URIs of the concepts that carry it: a
  dictionary of sets when it is built, a dictionary of lists when it is loaded.
\<close>

type_synonym index = "(string \<times> string list) list"

text \<open>\<^verbatim>\<open>index[label].add(uri)\<close> on a \<^verbatim>\<open>defaultdict(set)\<close>.\<close>

definition index_add :: "string \<Rightarrow> string \<Rightarrow> index \<Rightarrow> index" where
  "index_add label uri index =
     AList.update label
       (List.insert uri (case map_of index label of None \<Rightarrow> [] | Some uris \<Rightarrow> uris)) index"

text \<open>
  \<^verbatim>\<open>
  def _create_index(self):
      index = defaultdict(set)
      for concept in self.graph.subjects(RDF.type, SKOS.Concept):
          if (concept, OWL.deprecated, rdflib.Literal(True)) in self.graph:
              continue
          uri = str(concept)
          labels = self._get_concept_labels(concept, self.label_types)
          for label in labels:
              label = self._normalize_label(label)
              index[label].add(uri)
      index.pop('', None)  # Remove possible empty string entry
      self._index = dict(index)
  \<close>
  \<open>create_index_loop\<close> is the loop over the concepts; the property \<^verbatim>\<open>self.label_types\<close>
  is evaluated once for every concept that is not deprecated.
\<close>

fun create_index_loop ::
  "params \<Rightarrow> analyzer \<Rightarrow> graph \<Rightarrow> string list \<Rightarrow> index \<Rightarrow> error + index" where
  "create_index_loop p normalize_word g [] index = Inr index"
| "create_index_loop p normalize_word g (concept # rest) index =
     (if (concept, OWL_deprecated, Literal_True) \<in> set g
      then create_index_loop p normalize_word g rest index
      else
        (case label_types p of
           Inl e \<Rightarrow> Inl e
         | Inr lts \<Rightarrow>
             (case get_concept_labels p g concept lts of
                Inl e \<Rightarrow> Inl e
              | Inr labels \<Rightarrow>
                  create_index_loop p normalize_word g rest
                    (fold (\<lambda>label. index_add
                             (normalize_label normalize_word (remove_parentheses p) (str label))
                             concept)
                       labels index))))"

definition create_index :: "params \<Rightarrow> analyzer \<Rightarrow> graph \<Rightarrow> error + index" where
  "create_index p normalize_word g =
     (case create_index_loop p normalize_word g (subjects g RDF_type SKOS_Concept) [] of
        Inl e \<Rightarrow> Inl e
      | Inr index \<Rightarrow> Inr (AList.delete [] index))"

text \<open>
  \<^verbatim>\<open>
  def _save_index(self, path):
      with open(path, 'w', encoding='utf-8') as indexfile:
          for label, uris in self._index.items():
              line = label + '\t' + ' '.join(uris)
              print(line, file=indexfile)
  \<close>
  The result is the content of the file.
\<close>

definition save_index :: "index \<Rightarrow> string" where
  "save_index index = concat (map (\<lambda>(label, uris). label @ [TAB] @ join '' '' uris @ [LF]) index)"

text \<open>
  \<^verbatim>\<open>
  def _load_index(self, path):
      index = dict()
      with open(path, 'r', encoding='utf-8') as indexfile:
          for line in indexfile:
              label, uris = line.strip().split('\t')
              index[label] = uris.split()
      return index
  \<close>
  Unpacking a list that does not have exactly two elements raises \<^verbatim>\<open>ValueError\<close>.
\<close>

fun load_index_loop :: "string list \<Rightarrow> index \<Rightarrow> error + index" where
  "load_index_loop [] index = Inr index"
| "load_index_loop (line # rest) index =
     (case split_sep TAB (strip line) of
        [label, uris] \<Rightarrow> load_index_loop rest (AList.update label (split uris) index)
      | _ \<Rightarrow> Inl ValueError)"

definition load_index :: "string \<Rightarrow> error + index" where
  "load_index content = load_index_loop (file_lines content) []"

subsection \<open>Matching\<close>

text \<open>
  \<^verbatim>\<open>
  def _keyphrase2uris(self, keyphrase):
      keyphrase = self._lemmatize_phrase(keyphrase)
      keyphrase = self._sort_phrase(keyphrase)
      return self._index.get(keyphrase, [])
  \<close>
\<close>

definition keyphrase2uris :: "analyzer \<Rightarrow> index \<Rightarrow> string \<Rightarrow> string list" where
  "keyphrase2uris normalize_word index keyphrase =
     (case map_of index (sort_phrase (lemmatize_phrase normalize_word keyphrase)) of
        None \<Rightarrow> []
      | Some uris \<Rightarrow> uris)"

text \<open>
  \<^verbatim>\<open>
  def _combine_suggestions(self, suggestions):
      combined_suggestions = {}
      for uri, score in suggestions:
          if uri not in combined_suggestions:
              combined_suggestions[uri] = score
          else:
              old_score = combined_suggestions[uri]
              combined_suggestions[uri] = self._conflate_scores(
                  score, old_score)
      return list(combined_suggestions.items())
  \<close>
\<close>

fun combine_loop :: "(string \<times> real) list \<Rightarrow> (string \<times> real) list \<Rightarrow> error + (string \<times> real) list" where
  "combine_loop [] combined_suggestions = Inr combined_suggestions"
| "combine_loop ((uri, score) # rest) combined_suggestions =
     (case map_of combined_suggestions uri of
        None \<Rightarrow> combine_loop rest (AList.update uri score combined_suggestions)
      | Some old_score \<Rightarrow>
          (case conflate_scores score old_score of
             Inl e \<Rightarrow> Inl e
           | Inr conflated \<Rightarrow> combine_loop rest (AList.update uri conflated combined_suggestions)))"

definition combine_suggestions :: "(string \<times> real) list \<Rightarrow> error + (string \<times> real) list" where
  "combine_suggestions suggestions = combine_loop suggestions []"

text \<open>
  \<^verbatim>\<open>
  def _keyphrases2suggestions(self, keyphrases):
      suggestions = []
      not_matched = []
      for kp, score in keyphrases:
          uris = self._keyphrase2uris(kp)
          for uri in uris:
              suggestions.append(
                  (uri, self._transform_score(score)))
          if not uris:
              not_matched.append((kp, self._transform_score(score)))
      # Remove duplicate uris, conflating the scores
      suggestions = self._combine_suggestions(suggestions)
      self.debug(...)
      return suggestions
  \<close>
  \<open>score_uris\<close> is the inner loop, \<open>match_keyphrases\<close> the outer one; the list
  \<^verbatim>\<open>not_matched\<close> only feeds the debug message, so of it the model keeps the call of the
  score transform.
\<close>

fun score_uris :: "string list \<Rightarrow> real \<Rightarrow> error + (string \<times> real) list" where
  "score_uris [] score = Inr []"
| "score_uris (uri # uris) score =
     (case transform_score score of
        Inl e \<Rightarrow> Inl e
      | Inr transformed \<Rightarrow>
          (case score_uris uris score of
             Inl e \<Rightarrow> Inl e
           | Inr rest \<Rightarrow> Inr ((uri, transformed) # rest)))"

fun match_keyphrases ::
  "analyzer \<Rightarrow> index \<Rightarrow> (string \<times> real) list \<Rightarrow> error + (string \<times> real) list" where
  "match_keyphrases normalize_word index [] = Inr []"
| "match_keyphrases normalize_word index ((kp, score) # rest) =
     (let uris = keyphrase2uris normalize_word index kp
      in case (if uris = [] then map_sum id (\<lambda>_. []) (transform_score score)
               else score_uris uris score) of
           Inl e \<Rightarrow> Inl e
         | Inr found \<Rightarrow>
             (case match_keyphrases normalize_word index rest of
                Inl e \<Rightarrow> Inl e
              | Inr suggestions \<Rightarrow> Inr (found @ suggestions)))"

definition keyphrases2suggestions ::
  "analyzer \<Rightarrow> index \<Rightarrow> (string \<times> real) list \<Rightarrow> error + (string \<times> real) list" where
  "keyphrases2suggestions normalize_word index keyphrases =
     (case match_keyphrases normalize_word index keyphrases of
        Inl e \<Rightarrow> Inl e
      | Inr suggestions \<Rightarrow> combine_suggestions suggestions)"

subsection \<open>Suggestions\<close>

text \<open>
  Modelled from the spec: a suggestion is a concept with its score. The class
  \<^verbatim>\<open>SubjectSuggestion\<close> of \<^verbatim>\<open>annif.suggestion\<close> is called as
  \<^verbatim>\<open>SubjectSuggestion(uri=uri, label=None, notation=None, score=score)\<close>; the constructor
  has these four fields in this order.
\<close>

datatype SubjectSuggestion =
  SubjectSuggestion string "string option" "string option" real

text \<open>
  The slice \<^verbatim>\<open>xs[:limit]\<close>: the first \<open>limit\<close> elements, and for a negative \<open>limit\<close>
  all but the last \<open>- limit\<close>.
\<close>

definition slice_to :: "int \<Rightarrow> 'a list \<Rightarrow> 'a list" where
  "slice_to limit xs =
     (if limit < 0 then take (nat (int (length xs) + limit)) xs else take (nat limit) xs)"

text \<open>
  \<^verbatim>\<open>
  def _suggest(self, text, params):
      ...
      limit = int(params['limit'])

      keyphrases = self._kw_extractor.extract_keywords(text)
      suggestions = self._keyphrases2suggestions(keyphrases)

      subject_suggestions = [SubjectSuggestion(
              uri=uri,
              label=None,
              notation=None,
              score=score)
              for uri, score in suggestions[:limit] if score > 0.0]
      return ListSuggestionResult.create_from_index(subject_suggestions,
                                                    self.project.subjects)
  \<close>
  \<open>subject_suggestions\<close> is the comprehension. The keyword extractor is an external
  library: \<open>suggest\<close> takes the keyphrases it returned, and gives the list that is handed
  to \<^verbatim>\<open>ListSuggestionResult.create_from_index\<close>.
\<close>

definition subject_suggestions :: "(string \<times> real) list \<Rightarrow> int \<Rightarrow> SubjectSuggestion list" where
  "subject_suggestions suggestions limit =
     map (\<lambda>(uri, score). SubjectSuggestion uri None None score)
       (filter (\<lambda>(uri, score). score > 0) (slice_to limit suggestions))"

definition suggest ::
  "analyzer \<Rightarrow> index \<Rightarrow> (string \<times> real) list \<Rightarrow> int \<Rightarrow> error + SubjectSuggestion list" where
  "suggest normalize_word index keyphrases limit =
     (case keyphrases2suggestions normalize_word index keyphrases of
        Inl e \<Rightarrow> Inl e
      | Inr suggestions \<Rightarrow> Inr (subject_suggestions suggestions limit))"

section \<open>Properties of the scores\<close>



lemma conflate_denominator_pos:
  fixes s1 s2 :: real
  assumes "0 < s1" "s1 \<le> 1" "0 < s2" "s2 \<le> 1"
  shows "0 < s1 * s2 + (1 - s1) * (1 - s2)"
proof -
  have "0 < s1 * s2" using assms by simp
  moreover have "0 \<le> (1 - s1) * (1 - s2)" using assms by simp
  ultimately show ?thesis by linarith
qed


text \<open>
  C1. The claim: \<open>combine(s1, s2)\<close> returns 1.0 whenever either input is exactly 1.0, also
  where both inputs sit at the 0/1 extremes that make the denominator vanish (\<open>s1 = 1.0\<close>,
  \<open>s2 = 0.0\<close>), instead of dividing by zero. The source has no guard: with one input 1 the
  result is 1 for every other input but 0, and at \<open>(1, 0)\<close> and \<open>(0, 1)\<close> the denominator
  is 0 and the division raises \<^verbatim>\<open>ZeroDivisionError\<close>.
\<close>

theorem conflate_scores_one_zero_raises:
  "conflate_scores 1 0 = Inl ZeroDivisionError \<and> conflate_scores 0 1 = Inl ZeroDivisionError"
  by (simp add: conflate_scores_def truediv_def)

lemma conflate_scores_one:
  "x \<noteq> 0 \<Longrightarrow> conflate_scores 1 x = Inr 1 \<and> conflate_scores x 1 = Inr 1"
  by (simp add: conflate_scores_def truediv_def)



text \<open>
  C7. The claim: the pairwise combination is commutative and associative on the open
  interval \<open>(0, 1)\<close>, and \<open>combine(0.5, 0.5) = 0.8\<close>, \<open>combine(0.75, 0.75) = 0.96\<close>,
  \<open>combine(0.4, 0.3) = 0.625\<close>, \<open>combine(0.4, 0.5) = 0.75\<close>. The function of the source is
  commutative and associative there (\<open>conflate_scores_commute\<close>, \<open>conflate_scores_assoc\<close>
  below), but its values at the four points are 0.5, 0.9, 2/9 and 0.4.
\<close>

theorem conflate_scores_values:
  "conflate_scores (1 / 2) (1 / 2) = Inr (1 / 2)
     \<and> conflate_scores (3 / 4) (3 / 4) = Inr (9 / 10)
     \<and> conflate_scores (2 / 5) (3 / 10) = Inr (2 / 9)
     \<and> conflate_scores (2 / 5) (1 / 2) = Inr (2 / 5)"
  by (simp add: conflate_scores_def truediv_def)

lemma conflate_scores_commute: "conflate_scores a b = conflate_scores b a"
  by (simp add: conflate_scores_def mult.commute)

lemma conflate_scores_assoc:
  assumes a: "0 < a" "a < 1" and b: "0 < b" "b < 1" and c: "0 < c" "c < 1"
  shows "\<exists>x y z. conflate_scores a b = Inr x \<and> conflate_scores b c = Inr y
           \<and> conflate_scores x c = Inr z \<and> conflate_scores a y = Inr z"
proof -
  let ?dab = "a * b + (1 - a) * (1 - b)" and ?dbc = "b * c + (1 - b) * (1 - c)"
  let ?x = "a * b / ?dab" and ?y = "b * c / ?dbc"
  let ?d = "a * b * c + (1 - a) * (1 - b) * (1 - c)"
  have dab: "0 < ?dab" using a b by (intro conflate_denominator_pos) simp_all
  have dbc: "0 < ?dbc" using b c by (intro conflate_denominator_pos) simp_all
  have "0 < a * b * c" using a b c by simp
  moreover have "0 < (1 - a) * (1 - b) * (1 - c)" using a b c by simp
  ultimately have d: "0 < ?d" by linarith
  have x: "conflate_scores a b = Inr ?x"
    using dab by (simp add: conflate_scores_def truediv_def)
  have y: "conflate_scores b c = Inr ?y"
    using dbc by (simp add: conflate_scores_def truediv_def)
  have one_x: "1 - ?x = (1 - a) * (1 - b) / ?dab"
    using dab by (simp add: field_simps)
  have one_y: "1 - ?y = (1 - b) * (1 - c) / ?dbc"
    using dbc by (simp add: field_simps)
  have dx: "?x * c + (1 - ?x) * (1 - c) = ?d / ?dab"
    unfolding one_x by (simp add: add_divide_distrib)
  have dy: "a * ?y + (1 - a) * (1 - ?y) = ?d / ?dbc"
    unfolding one_y by (simp add: add_divide_distrib mult.assoc)
  have xc: "conflate_scores ?x c = Inr (a * b * c / ?d)"
  proof -
    have nz: "?d / ?dab \<noteq> 0" using d dab by simp
    have "?x * c / (?d / ?dab) = a * b * c / ?d" using dab by simp
    then show ?thesis
      unfolding conflate_scores_def truediv_def dx using nz by simp
  qed
  have ay: "conflate_scores a ?y = Inr (a * b * c / ?d)"
  proof -
    have nz: "?d / ?dbc \<noteq> 0" using d dbc by simp
    have "a * ?y / (?d / ?dbc) = a * b * c / ?d" using dbc by (simp add: mult.assoc)
    then show ?thesis
      unfolding conflate_scores_def truediv_def dy using nz by simp
  qed
  show ?thesis using x y xc ay by blast
qed

section \<open>Resolving the label types\<close>

lemma mapping_known: "map_of mapping k \<noteq> None \<longleftrightarrow> k \<in> {''pref'', ''alt'', ''hidden''}"
  by (simp add: mapping_def)

lemma lookup_all_ok:
  "\<forall>k\<in>set ks. map_of mapping k \<noteq> None \<Longrightarrow>
     \<exists>ts. lookup_all ks = Inr ts \<and> map (map_of mapping) ks = map Some ts"
  by (induction ks) auto

lemma lookup_all_fails:
  "\<exists>k\<in>set ks. map_of mapping k = None \<Longrightarrow>
     \<exists>k\<in>set ks. map_of mapping k = None \<and> lookup_all ks = Inl (KeyError k)"
proof (induction ks)
  case Nil
  then show ?case by simp
next
  case (Cons k ks)
  show ?case
  proof (cases "map_of mapping k")
    case None
    then show ?thesis by auto
  next
    case (Some t)
    then have "\<exists>k\<in>set ks. map_of mapping k = None" using Cons.prems by auto
    then obtain k' where "k' \<in> set ks" "map_of mapping k' = None" "lookup_all ks = Inl (KeyError k')"
      using Cons.IH by blast
    then show ?thesis using Some by auto
  qed
qed

text \<open>
  C9. When the parameter \<^verbatim>\<open>label_types\<close> is configured, its tokens are the fields
  between the commas, stripped. If one of them is not \<^verbatim>\<open>pref\<close>, \<^verbatim>\<open>alt\<close> or
  \<^verbatim>\<open>hidden\<close>, the property \<^verbatim>\<open>label_types\<close> raises a \<open>ConfigurationException\<close>; if all
  of them are, it returns the label kinds they map to, in their order.
\<close>

theorem label_types_configured:
  assumes "label_types_entry p = Some entry"
  shows "((\<exists>t\<in>set (split_sep CHR '','' entry). strip t \<notin> {''pref'', ''alt'', ''hidden''}) \<longrightarrow>
            (\<exists>k. label_types p = Inl (ConfigurationException k)))
       \<and> ((\<forall>t\<in>set (split_sep CHR '','' entry). strip t \<in> {''pref'', ''alt'', ''hidden''}) \<longrightarrow>
            (\<exists>ts. label_types p = Inr ts
               \<and> map (\<lambda>t. map_of mapping (strip t)) (split_sep CHR '','' entry) = map Some ts))"
proof (intro conjI impI)
  let ?ks = "map strip (split_sep CHR '','' entry)"
  assume "\<exists>t\<in>set (split_sep CHR '','' entry). strip t \<notin> {''pref'', ''alt'', ''hidden''}"
  then obtain t where t: "t \<in> set (split_sep CHR '','' entry)"
    and "strip t \<notin> {''pref'', ''alt'', ''hidden''}" by blast
  then have "map_of mapping (strip t) = None"
    using mapping_known [of "strip t"] by blast
  then have "\<exists>k\<in>set ?ks. map_of mapping k = None"
    using t by (intro bexI [of _ "strip t"]) simp_all
  then obtain k where "lookup_all ?ks = Inl (KeyError k)"
    using lookup_all_fails by blast
  then show "\<exists>k. label_types p = Inl (ConfigurationException k)"
    using assms by (simp add: label_types_def)
next
  let ?ks = "map strip (split_sep CHR '','' entry)"
  assume a: "\<forall>t\<in>set (split_sep CHR '','' entry). strip t \<in> {''pref'', ''alt'', ''hidden''}"
  have "\<forall>k\<in>set ?ks. map_of mapping k \<noteq> None"
  proof
    fix k assume "k \<in> set ?ks"
    then obtain t where "t \<in> set (split_sep CHR '','' entry)" "k = strip t" by auto
    then show "map_of mapping k \<noteq> None" using a mapping_known [of k] by blast
  qed
  then obtain ts where "lookup_all ?ks = Inr ts" "map (map_of mapping) ?ks = map Some ts"
    using lookup_all_ok by blast
  then show "\<exists>ts. label_types p = Inr ts
     \<and> map (\<lambda>t. map_of mapping (strip t)) (split_sep CHR '','' entry) = map Some ts"
    using assms by (simp add: label_types_def comp_def)
qed

lemma split_sep_ex1: "split_sep CHR '','' ''pref, hidden'' = [''pref'', '' hidden'']"
  by (simp add: split_sep_def)
lemma split_sep_ex2: "split_sep CHR '','' ''pref,label'' = [''pref'', ''label'']"
  by (simp add: split_sep_def)
lemma strip_ex1: "strip '' hidden'' = ''hidden''" "strip ''pref'' = ''pref''" "strip ''label'' = ''label''"
  by (simp_all add: strip_def isspace_def)

theorem label_types_configured_witness:
  "label_types \<lparr>language = ''fi'', label_types_entry = Some ''pref, hidden'',
       default_label_types = [''pref'', ''alt''], remove_parentheses = False\<rparr>
     = Inr [SKOS_prefLabel, SKOS_hiddenLabel]
   \<and> label_types \<lparr>language = ''fi'', label_types_entry = Some ''pref,label'',
       default_label_types = [''pref'', ''alt''], remove_parentheses = False\<rparr>
     = Inl (ConfigurationException ''label'')"
proof -
  let ?p = "\<lparr>language = ''fi'', label_types_entry = Some ''pref, hidden'',
       default_label_types = [''pref'', ''alt''], remove_parentheses = False\<rparr>"
  let ?q = "\<lparr>language = ''fi'', label_types_entry = Some ''pref,label'',
       default_label_types = [''pref'', ''alt''], remove_parentheses = False\<rparr>"
  have "\<forall>t\<in>set (split_sep CHR '','' ''pref, hidden''). strip t \<in> {''pref'', ''alt'', ''hidden''}"
    by (simp add: split_sep_ex1 strip_ex1)
  moreover have "label_types_entry ?p = Some ''pref, hidden''" by simp
  ultimately obtain ts where ts: "label_types ?p = Inr ts"
    "map (\<lambda>t. map_of mapping (strip t)) (split_sep CHR '','' ''pref, hidden'') = map Some ts"
    using label_types_configured [of ?p "''pref, hidden''"] by blast
  have "map Some ts = map Some [SKOS_prefLabel, SKOS_hiddenLabel]"
    using ts(2) by (simp add: split_sep_ex1 strip_ex1 mapping_def)
  then have "ts = [SKOS_prefLabel, SKOS_hiddenLabel]"
    by (simp add: map_eq_Cons_conv)
  then have 1: "label_types ?p = Inr [SKOS_prefLabel, SKOS_hiddenLabel]"
    using ts(1) by simp
  have "\<exists>t\<in>set (split_sep CHR '','' ''pref,label''). strip t \<notin> {''pref'', ''alt'', ''hidden''}"
    by (simp add: split_sep_ex2 strip_ex1)
  moreover have "label_types_entry ?q = Some ''pref,label''" by simp
  ultimately obtain k where "label_types ?q = Inl (ConfigurationException k)"
    using label_types_configured [of ?q "''pref,label''"] by blast
  moreover have "label_types ?q = Inl (ConfigurationException ''label'')"
    by (simp add: label_types_def split_sep_ex2 strip_ex1 mapping_def)
  ultimately show ?thesis using 1 by simp
qed

section \<open>Parenthesis removal and normalization\<close>

lemma match_parentheses_None:
  "CHR '')'' \<notin> set s \<Longrightarrow> match_parentheses s = None"
  by (auto simp: match_parentheses_def Let_def split: list.splits dest: set_takeWhileD)

lemma sub_parentheses_unchanged:
  "CHR '')'' \<notin> set s \<Longrightarrow> sub_parentheses s = s"
proof (induction s)
  case Nil
  then show ?case by simp
next
  case (Cons c cs)
  then have "match_parentheses (c # cs) = None" by (intro match_parentheses_None)
  then show ?case using Cons by simp
qed

lemma match_parentheses_start:
  "match_parentheses (c # cs) = Some n \<Longrightarrow> c = CHR '' '' \<and> (\<exists>r. cs = CHR ''('' # r)"
  by (auto simp: match_parentheses_def Let_def split: list.splits if_splits)

lemma match_parentheses_line:
  assumes "takeWhile (\<lambda>c. c \<noteq> LF) rest = rest" "CHR '')'' \<in> set rest"
  shows "match_parentheses (CHR '' '' # CHR ''('' # rest)
           = Some (2 + length (dropWhile (\<lambda>c. c \<noteq> CHR '')'') (rev rest)))"
  unfolding match_parentheses_def list.case Let_def assms(1) using assms(2) by simp

lemma match_parentheses_greedy:
  assumes "LF \<notin> set mid" "LF \<notin> set post" "CHR '')'' \<notin> set post"
  shows "match_parentheses ('' ('' @ mid @ '')'' @ post) = Some (length mid + 3)"
proof -
  define rest where "rest = mid @ '')'' @ post"
  have line: "takeWhile (\<lambda>c. c \<noteq> LF) rest = rest"
    using assms unfolding rest_def by (auto simp: takeWhile_eq_all_conv)
  have closing: "CHR '')'' \<in> set rest"
    unfolding rest_def by simp
  have "dropWhile (\<lambda>c. c \<noteq> CHR '')'') (rev rest)
          = dropWhile (\<lambda>c. c \<noteq> CHR '')'') (rev post @ CHR '')'' # rev mid)"
    unfolding rest_def by simp
  also have "\<dots> = dropWhile (\<lambda>c. c \<noteq> CHR '')'') (CHR '')'' # rev mid)"
    using assms(3) by (intro dropWhile_append2) auto
  also have "\<dots> = CHR '')'' # rev mid" by simp
  finally have "length (dropWhile (\<lambda>c. c \<noteq> CHR '')'') (rev rest)) = length mid + 1"
    by simp
  then have "match_parentheses (CHR '' '' # CHR ''('' # rest) = Some (length mid + 3)"
    using match_parentheses_line [OF line closing] by simp
  then show ?thesis unfolding rest_def by simp
qed

lemma sub_parentheses_skip:
  assumes "\<forall>a b. pre \<noteq> a @ '' ('' @ b"
  shows "sub_parentheses (pre @ '' ('' @ rest) = pre @ sub_parentheses ('' ('' @ rest)"
  using assms
proof (induction pre)
  case Nil
  then show ?case by simp
next
  case (Cons c cs)
  have tail: "\<forall>a b. cs \<noteq> a @ '' ('' @ b"
  proof (intro allI notI)
    fix a b assume "cs = a @ '' ('' @ b"
    then have "c # cs = (c # a) @ '' ('' @ b" by simp
    then show False using Cons.prems by blast
  qed
  have "match_parentheses (c # cs @ '' ('' @ rest) = None"
  proof (cases "match_parentheses (c # cs @ '' ('' @ rest)")
    case None
    then show ?thesis .
  next
    case (Some n)
    then obtain r where c: "c = CHR '' ''" and r: "cs @ '' ('' @ rest = CHR ''('' # r"
      using match_parentheses_start by blast
    from r obtain cs' where "cs = CHR ''('' # cs'"
      by (cases cs) auto
    then have "c # cs = [] @ '' ('' @ cs'" using c by simp
    then show ?thesis using Cons.prems by blast
  qed
  then show ?case using Cons.IH [OF tail] by simp
qed

lemma sub_parentheses_greedy:
  assumes "\<forall>a b. pre \<noteq> a @ '' ('' @ b"
    and "LF \<notin> set mid" "LF \<notin> set post" "CHR '')'' \<notin> set post"
  shows "sub_parentheses (pre @ '' ('' @ mid @ '')'' @ post) = pre @ post"
proof -
  have m: "match_parentheses ('' ('' @ mid @ '')'' @ post) = Some (length mid + 3)"
    using assms(2-4) by (rule match_parentheses_greedy)
  have "sub_parentheses ('' ('' @ mid @ '')'' @ post)
          = sub_parentheses (drop (length mid + 3) ('' ('' @ mid @ '')'' @ post))"
    using m by simp
  also have "drop (length mid + 3) ('' ('' @ mid @ '')'' @ post) = post"
    by (simp add: numeral_3_eq_3)
  also have "sub_parentheses post = post"
    using assms(4) by (rule sub_parentheses_unchanged)
  finally show ?thesis
    using sub_parentheses_skip [OF assms(1)] by simp
qed


text \<open>
  C3. The claim: with \<^verbatim>\<open>remove_parentheses\<close> the normalizer removes one parenthesized
  group, matched non-greedily, so that of \<^verbatim>\<open>"foo (a) bar (b)"\<close> only one group goes and
  not everything from the first \<^verbatim>\<open>" ("\<close> to the last \<^verbatim>\<open>")"\<close>. The pattern of the source
  is greedy: of that label only \<^verbatim>\<open>"foo"\<close> is left.
\<close>

theorem sub_parentheses_counterexample:
  "sub_parentheses ''foo (a) bar (b)'' = ''foo''
     \<and> normalize_label (\<lambda>word. word) True ''foo (a) bar (b)'' = ''foo''"
  by code_simp

text \<open>
  C3, as the source has it: in a label of one line, everything from the first blank
  that an opening parenthesis follows up to the last closing parenthesis is removed, and
  the label is normalized as the rest is.
\<close>

theorem normalize_label_removes_greedily:
  assumes "\<forall>a b. pre \<noteq> a @ '' ('' @ b"
    and "LF \<notin> set mid" "LF \<notin> set post" "CHR '')'' \<notin> set post"
  shows "sub_parentheses (pre @ '' ('' @ mid @ '')'' @ post) = pre @ post
       \<and> normalize_label normalize_word True (pre @ '' ('' @ mid @ '')'' @ post)
           = normalize_label normalize_word False (pre @ post)"
  using sub_parentheses_greedy [OF assms] by (simp add: normalize_label_def)

theorem normalize_label_removes_greedily_witness:
  "sub_parentheses ''rock art (a) or (b) etc'' = ''rock art etc''
     \<and> normalize_label (\<lambda>word. word) True ''rock art (a) or (b) etc''
         = normalize_label (\<lambda>word. word) False ''rock art etc''"
proof -
  have pre: "\<forall>a b. ''rock art'' \<noteq> a @ '' ('' @ b"
  proof (intro allI notI)
    fix a b :: string
    assume "''rock art'' = a @ '' ('' @ b"
    then have "set ''rock art'' = set (a @ '' ('' @ b)" by (rule arg_cong)
    then have "CHR ''('' \<in> set ''rock art''" by simp
    then show False by simp
  qed
  have "LF \<notin> set ''a) or (b''" "LF \<notin> set '' etc''" "CHR '')'' \<notin> set '' etc''"
    by simp_all
  from normalize_label_removes_greedily [OF pre this, of "\<lambda>word. word"]
  show ?thesis by simp
qed

lemma map_of_index_add:
  "\<exists>uris. map_of (index_add key uri index) key = Some uris \<and> uri \<in> set uris"
  by (simp add: index_add_def update_conv')

text \<open>
  C2. The claim: for every phrase and configuration, a keyphrase is normalized at match
  time as a label is when the index is built. \<^verbatim>\<open>_keyphrase2uris\<close> lemmatizes and sorts
  but never removes parentheses, so with \<^verbatim>\<open>remove_parentheses\<close> the two keys of the
  phrase \<^verbatim>\<open>"foo (bar)"\<close> differ: the index has it under \<^verbatim>\<open>"foo"\<close>, the lookup asks for
  \<^verbatim>\<open>"(bar) foo"\<close>.
\<close>

theorem keyphrase2uris_counterexample:
  "normalize_label (\<lambda>word. word) True ''foo (bar)'' = ''foo''
     \<and> index_add (normalize_label (\<lambda>word. word) True ''foo (bar)'') ''u'' [] = [(''foo'', [''u''])]
     \<and> keyphrase2uris (\<lambda>word. word) [(''foo'', [''u''])] ''foo (bar)'' = []
     \<and> keyphrase2uris (\<lambda>word. word) [(''(bar) foo'', [''u''])] ''foo (bar)'' = [''u'']"
  by code_simp

text \<open>
  C2, as the source has it: the key of a keyphrase at match time is the key of the same
  phrase as a label where \<^verbatim>\<open>remove_parentheses\<close> is off, or where the parenthesis pattern
  does not match in the phrase. A concept that has been entered into the index under
  such a phrase is then found by that phrase.
\<close>

theorem keyphrase2uris_normalize_label:
  assumes "removing \<longrightarrow> sub_parentheses phrase = phrase"
  shows "keyphrase2uris normalize_word index phrase =
           (case map_of index (normalize_label normalize_word removing phrase) of
              None \<Rightarrow> []
            | Some uris \<Rightarrow> uris)
       \<and> uri \<in> set (keyphrase2uris normalize_word
                       (index_add (normalize_label normalize_word removing phrase) uri index) phrase)"
proof
  have key: "sort_phrase (lemmatize_phrase normalize_word phrase)
               = normalize_label normalize_word removing phrase"
    using assms by (simp add: normalize_label_def)
  show "keyphrase2uris normalize_word index phrase =
           (case map_of index (normalize_label normalize_word removing phrase) of
              None \<Rightarrow> []
            | Some uris \<Rightarrow> uris)"
    unfolding keyphrase2uris_def key ..
  obtain uris where "map_of (index_add (normalize_label normalize_word removing phrase) uri index)
      (normalize_label normalize_word removing phrase) = Some uris" "uri \<in> set uris"
    using map_of_index_add by blast
  then show "uri \<in> set (keyphrase2uris normalize_word
                       (index_add (normalize_label normalize_word removing phrase) uri index) phrase)"
    unfolding keyphrase2uris_def key by simp
qed

theorem keyphrase2uris_normalize_label_witness:
  "keyphrase2uris (\<lambda>word. word) [(''art rock'', [''u''])] ''Rock Art'' = [''u'']
   \<and> ''u'' \<in> set (keyphrase2uris (\<lambda>word. word)
        (index_add (normalize_label (\<lambda>word. word) True ''Rock Art'') ''u'' []) ''Rock Art'')"
proof -
  have "CHR '')'' \<notin> set ''Rock Art''" by simp
  then have "True \<longrightarrow> sub_parentheses ''Rock Art'' = ''Rock Art''"
    using sub_parentheses_unchanged [of "''Rock Art''"] by blast
  from keyphrase2uris_normalize_label [OF this, of "\<lambda>word. word" "[(''art rock'', [''u''])]" "''u''"]
  have "keyphrase2uris (\<lambda>word. word) [(''art rock'', [''u''])] ''Rock Art'' =
           (case map_of [(''art rock'', [''u''])] (normalize_label (\<lambda>word. word) True ''Rock Art'') of
              None \<Rightarrow> []
            | Some uris \<Rightarrow> uris)" by blast
  moreover have "normalize_label (\<lambda>word. word) True ''Rock Art'' = ''art rock''"
    by code_simp
  ultimately have 1: "keyphrase2uris (\<lambda>word. word) [(''art rock'', [''u''])] ''Rock Art'' = [''u'']"
    by simp
  have "True \<longrightarrow> sub_parentheses ''Rock Art'' = ''Rock Art''"
    using sub_parentheses_unchanged [of "''Rock Art''"] by simp
  from keyphrase2uris_normalize_label [OF this, of "\<lambda>word. word" "[]" "''u''"]
  have 2: "''u'' \<in> set (keyphrase2uris (\<lambda>word. word)
        (index_add (normalize_label (\<lambda>word. word) True ''Rock Art'') ''u'' []) ''Rock Art'')"
    by blast
  show ?thesis using 1 2 by blast
qed

section \<open>Assembling the suggestions\<close>

lemma slice_to_nonneg: "0 \<le> limit \<Longrightarrow> slice_to limit xs = take (nat limit) xs"
  by (simp add: slice_to_def)

lemma filter_take_all:
  "\<forall>x\<in>set xs. P x \<Longrightarrow> filter P (take n xs) = take n (filter P xs)"
  by (induction xs arbitrary: n) (auto simp: take_Cons split: nat.splits)

text \<open>
  C4. The claim: the assembler first drops every pair with a score \<open>\<le> 0\<close> and then
  truncates to at most \<open>limit\<close> entries, so that later pairs with a positive score fill
  the limit. The comprehension of the source runs over the slice \<^verbatim>\<open>suggestions[:limit]\<close>:
  it truncates first. With the limit 1, a first pair of score 0 leaves nothing, where
  dropping first would leave the second pair.
\<close>

theorem subject_suggestions_counterexample:
  "subject_suggestions [(''a'', 0), (''b'', 1 / 2)] 1 = []
     \<and> take 1 (filter (\<lambda>(uri, score). score > 0) [(''a'', 0 :: real), (''b'', 1 / 2)]) = [(''b'', 1 / 2)]"
  by (simp add: subject_suggestions_def slice_to_def)

text \<open>
  C4, as the source has it: for a limit that is not negative, the assembler takes the
  first \<open>limit\<close> pairs and drops among them every pair with a score \<open>\<le> 0\<close>, keeping
  the order; the result has at most \<open>limit\<close> entries; and where every score is positive,
  truncating first and dropping first give the same list.
\<close>

theorem subject_suggestions_truncate_then_filter:
  assumes "0 \<le> limit"
  shows "subject_suggestions suggestions limit =
           map (\<lambda>(uri, score). SubjectSuggestion uri None None score)
             (filter (\<lambda>(uri, score). score > 0) (take (nat limit) suggestions))
       \<and> length (subject_suggestions suggestions limit) \<le> nat limit
       \<and> ((\<forall>(uri, score)\<in>set suggestions. score > 0) \<longrightarrow>
            subject_suggestions suggestions limit =
              map (\<lambda>(uri, score). SubjectSuggestion uri None None score)
                (take (nat limit) (filter (\<lambda>(uri, score). score > 0) suggestions)))"
proof (intro conjI impI)
  show eq: "subject_suggestions suggestions limit =
           map (\<lambda>(uri, score). SubjectSuggestion uri None None score)
             (filter (\<lambda>(uri, score). score > 0) (take (nat limit) suggestions))"
    using assms by (simp add: subject_suggestions_def slice_to_nonneg)
  have "length (filter (\<lambda>(uri, score). score > 0) (take (nat limit) suggestions))
          \<le> length (take (nat limit) suggestions)"
    by (rule length_filter_le)
  then show "length (subject_suggestions suggestions limit) \<le> nat limit"
    unfolding eq by simp
  assume "\<forall>(uri, score)\<in>set suggestions. score > 0"
  then have "filter (\<lambda>(uri, score). score > 0) (take (nat limit) suggestions)
      = take (nat limit) (filter (\<lambda>(uri, score). score > 0) suggestions)"
    by (rule filter_take_all)
  then show "subject_suggestions suggestions limit =
              map (\<lambda>(uri, score). SubjectSuggestion uri None None score)
                (take (nat limit) (filter (\<lambda>(uri, score). score > 0) suggestions))"
    unfolding eq by simp
qed

theorem subject_suggestions_truncate_then_filter_witness:
  "subject_suggestions [(''a'', 1 / 2), (''b'', 0), (''c'', 1 / 4), (''d'', 1)] 3
     = [SubjectSuggestion ''a'' None None (1 / 2), SubjectSuggestion ''c'' None None (1 / 4)]
   \<and> subject_suggestions [(''a'', 1 / 2), (''c'', 1 / 4), (''d'', 1)] 2
     = [SubjectSuggestion ''a'' None None (1 / 2), SubjectSuggestion ''c'' None None (1 / 4)]"
proof -
  have "(0::int) \<le> 3" by simp
  from subject_suggestions_truncate_then_filter [OF this, of "[(''a'', 1 / 2), (''b'', 0), (''c'', 1 / 4), (''d'', 1)]"]
  have 1: "subject_suggestions [(''a'', 1 / 2), (''b'', 0), (''c'', 1 / 4), (''d'', 1)] 3
     = [SubjectSuggestion ''a'' None None (1 / 2), SubjectSuggestion ''c'' None None (1 / 4)]"
    by (simp add: numeral_3_eq_3)
  have "(0::int) \<le> 2" by simp
  from subject_suggestions_truncate_then_filter [OF this, of "[(''a'', 1 / 2), (''c'', 1 / 4), (''d'', 1)]"]
  have 2: "subject_suggestions [(''a'', 1 / 2), (''c'', 1 / 4), (''d'', 1)] 2
     = [SubjectSuggestion ''a'' None None (1 / 2), SubjectSuggestion ''c'' None None (1 / 4)]"
    by (simp add: numeral_2_eq_2)
  show ?thesis using 1 2 by simp
qed

section \<open>Association lists as dictionaries\<close>

lemma set_update_subset: "set (AList.update k v al) \<subseteq> insert (k, v) (set al)"
  by (induction al) auto

lemma update_fresh: "k \<notin> fst ` set al \<Longrightarrow> AList.update k v al = al @ [(k, v)]"
  by (induction al) auto

section \<open>The matching pipeline divides by no zero\<close>








section \<open>The built index\<close>

lemma index_add_uris:
  assumes "\<forall>(label, uris)\<in>set index. \<forall>uri\<in>set uris. P uri" and "P concept"
  shows "\<forall>(label, uris)\<in>set (index_add key concept index). \<forall>uri\<in>set uris. P uri"
proof -
  let ?old = "case map_of index key of None \<Rightarrow> [] | Some uris \<Rightarrow> uris"
  have "\<forall>uri\<in>set ?old. P uri"
  proof (cases "map_of index key")
    case None
    then show ?thesis by simp
  next
    case (Some uris)
    then have "(key, uris) \<in> set index" by (rule map_of_SomeD)
    then show ?thesis using assms(1) Some by auto
  qed
  then have "\<forall>uri\<in>set (List.insert concept ?old). P uri" using assms(2) by simp
  then show ?thesis
    unfolding index_add_def
    using assms(1) set_update_subset [of key "List.insert concept ?old" index] by blast
qed

lemma fold_index_add_uris:
  assumes "\<forall>(label, uris)\<in>set index. \<forall>uri\<in>set uris. P uri" and "P concept"
  shows "\<forall>(label, uris)\<in>set (fold (\<lambda>label. index_add (f label) concept) labels index).
           \<forall>uri\<in>set uris. P uri"
  using assms(1)
proof (induction labels arbitrary: index)
  case Nil
  then show ?case by simp
next
  case (Cons label labels)
  have "\<forall>(label, uris)\<in>set (index_add (f label) concept index). \<forall>uri\<in>set uris. P uri"
    using Cons.prems assms(2) by (rule index_add_uris)
  then show ?case using Cons.IH by simp
qed

lemma create_index_loop_uris:
  assumes "create_index_loop p normalize_word g concepts index = Inr result"
    and "\<forall>(label, uris)\<in>set index. \<forall>uri\<in>set uris. (uri, OWL_deprecated, Literal_True) \<notin> set g"
  shows "\<forall>(label, uris)\<in>set result. \<forall>uri\<in>set uris. (uri, OWL_deprecated, Literal_True) \<notin> set g"
  using assms
proof (induction concepts arbitrary: index)
  case Nil
  then show ?case by simp
next
  case (Cons concept rest)
  show ?case
  proof (cases "(concept, OWL_deprecated, Literal_True) \<in> set g")
    case True
    then show ?thesis using Cons by simp
  next
    case False
    then obtain lts labels where
      "label_types p = Inr lts" "get_concept_labels p g concept lts = Inr labels"
      and loop: "create_index_loop p normalize_word g rest
        (fold (\<lambda>label. index_add
                 (normalize_label normalize_word (remove_parentheses p) (str label)) concept)
           labels index) = Inr result"
      using Cons.prems(1) by (auto split: sum.splits)
    have "\<forall>(label, uris)\<in>set (fold (\<lambda>label. index_add
                 (normalize_label normalize_word (remove_parentheses p) (str label)) concept)
           labels index). \<forall>uri\<in>set uris. (uri, OWL_deprecated, Literal_True) \<notin> set g"
      using Cons.prems(2) False by (rule fold_index_add_uris)
    then show ?thesis using Cons.IH [OF loop] by blast
  qed
qed

text \<open>
  C8. Whatever the graph, the language and the label types: an index that has been built
  has no entry under the empty string, and no entry holds the URI of a concept that the
  graph marks as deprecated.
\<close>

theorem create_index_invariant:
  assumes "create_index p normalize_word g = Inr index"
  shows "[] \<notin> fst ` set index
       \<and> (\<forall>(label, uris)\<in>set index. \<forall>uri\<in>set uris. (uri, OWL_deprecated, Literal_True) \<notin> set g)"
proof -
  obtain built where built:
    "create_index_loop p normalize_word g (subjects g RDF_type SKOS_Concept) [] = Inr built"
    and index: "index = AList.delete [] built"
    using assms by (auto simp: create_index_def split: sum.splits)
  have "\<forall>(label, uris)\<in>set built. \<forall>uri\<in>set uris. (uri, OWL_deprecated, Literal_True) \<notin> set g"
    using built by (rule create_index_loop_uris) simp
  moreover have "set index \<subseteq> set built"
    unfolding index by (auto simp: AList.delete_eq)
  moreover have "[] \<notin> fst ` set index"
    unfolding index by (rule AList.delete_notin_dom)
  ultimately show ?thesis by blast
qed

theorem create_index_invariant_witness:
  "create_index
      \<lparr>language = ''en'', label_types_entry = None,
         default_label_types = [''pref'', ''alt''], remove_parentheses = True\<rparr>
      (\<lambda>word. word)
      [(''u1'', RDF_type, SKOS_Concept),
       (''u1'', SKOS_prefLabel, Literal ''Rock art (x)'' (Some ''en'')),
       (''u2'', RDF_type, SKOS_Concept),
       (''u2'', OWL_deprecated, Literal_True),
       (''u2'', SKOS_prefLabel, Literal ''art rock'' (Some ''en'')),
       (''u3'', RDF_type, SKOS_Concept),
       (''u3'', SKOS_altLabel, Literal ''art rock'' (Some ''en'')),
       (''u3'', SKOS_prefLabel, Literal ''kalliotaide'' (Some ''fi'')),
       (''u3'', SKOS_prefLabel, Literal ''  '' (Some ''en''))]
    = Inr [(''art rock'', [''u3'', ''u1''])]
   \<and> [] \<notin> fst ` set [(''art rock'', [''u3'', ''u1''])]"
proof -
  let ?p = "\<lparr>language = ''en'', label_types_entry = None,
         default_label_types = [''pref'', ''alt''], remove_parentheses = True\<rparr>"
  let ?g = "[(''u1'', RDF_type, SKOS_Concept),
       (''u1'', SKOS_prefLabel, Literal ''Rock art (x)'' (Some ''en'')),
       (''u2'', RDF_type, SKOS_Concept),
       (''u2'', OWL_deprecated, Literal_True),
       (''u2'', SKOS_prefLabel, Literal ''art rock'' (Some ''en'')),
       (''u3'', RDF_type, SKOS_Concept),
       (''u3'', SKOS_altLabel, Literal ''art rock'' (Some ''en'')),
       (''u3'', SKOS_prefLabel, Literal ''kalliotaide'' (Some ''fi'')),
       (''u3'', SKOS_prefLabel, Literal ''  '' (Some ''en''))]"
  have built: "create_index ?p (\<lambda>word. word) ?g = Inr [(''art rock'', [''u3'', ''u1''])]"
    by code_simp
  from create_index_invariant [OF built]
  have "[] \<notin> fst ` set [(''art rock'', [''u3'', ''u1''])]" by blast
  then show ?thesis using built by blast
qed

section \<open>Saving and loading the index\<close>

subsection \<open>Splitting and joining\<close>

lemma isspace_simps: "isspace TAB" "isspace LF" "isspace CR" "isspace CHR '' ''"
  by (simp_all add: isspace_def)

lemma split_sep_acc_none:
  "sep \<notin> set s \<Longrightarrow> split_sep_acc sep cur s = [rev cur @ s]"
  by (induction s arbitrary: cur) auto

lemma split_sep_acc_first:
  "sep \<notin> set a \<Longrightarrow>
     split_sep_acc sep cur (a @ sep # b) = (rev cur @ a) # split_sep_acc sep [] b"
  by (induction a arbitrary: cur) auto

lemma split_sep_two:
  assumes "sep \<notin> set a" "sep \<notin> set b"
  shows "split_sep sep (a @ sep # b) = [a, b]"
  using assms by (simp add: split_sep_def split_sep_acc_first split_sep_acc_none)

lemma split_acc_word:
  "\<forall>c\<in>set w. \<not> isspace c \<Longrightarrow> split_acc cur (w @ rest) = split_acc (rev w @ cur) rest"
  by (induction w arbitrary: cur) auto

lemma split_join:
  assumes "\<forall>w\<in>set ws. w \<noteq> [] \<and> (\<forall>c\<in>set w. \<not> isspace c)"
  shows "split (join '' '' ws) = ws"
  using assms
proof (induction "'' ''" ws rule: join.induct)
  case 1
  then show ?case by (simp add: split_def)
next
  case (2 w)
  then have "split_acc [] (w @ []) = split_acc (rev w @ []) []"
    by (intro split_acc_word) simp
  then show ?case using 2 by (simp add: split_def)
next
  case (3 w v ws)
  have w: "w \<noteq> []" "\<forall>c\<in>set w. \<not> isspace c" using 3(2) by auto
  have "split_acc [] (w @ '' '' @ join '' '' (v # ws))
          = split_acc (rev w @ []) ('' '' @ join '' '' (v # ws))"
    using w(2) by (rule split_acc_word)
  also have "\<dots> = w # split_acc [] (join '' '' (v # ws))"
    using w(1) by (simp add: isspace_simps)
  also have "split_acc [] (join '' '' (v # ws)) = v # ws"
    using 3 by (simp add: split_def)
  finally show ?case by (simp add: split_def)
qed

lemma set_join: "set (join sep ws) \<subseteq> set sep \<union> \<Union> (set ` set ws)"
  by (induction sep ws rule: join.induct) auto

lemma join_nonempty: "\<exists>w\<in>set ws. w \<noteq> [] \<Longrightarrow> join sep ws \<noteq> []"
  by (induction sep ws rule: join.induct) auto

lemma last_join:
  "ws \<noteq> [] \<Longrightarrow> last ws \<noteq> [] \<Longrightarrow> last (join sep ws) = last (last ws)"
proof (induction sep ws rule: join.induct)
  case (1 sep)
  then show ?case by simp
next
  case (2 sep w)
  then show ?case by simp
next
  case (3 sep w v ws)
  have "last (v # ws) \<in> set (v # ws)" by (rule last_in_set) simp
  then have "join sep (v # ws) \<noteq> []"
    using 3(3) by (intro join_nonempty) auto
  then show ?case using 3 by simp
qed

subsection \<open>Stripping and cutting into lines\<close>

lemma dropWhile_hd: "s \<noteq> [] \<Longrightarrow> \<not> P (hd s) \<Longrightarrow> dropWhile P s = s"
  by (cases s) auto

lemma strip_line:
  assumes "a \<noteq> []" "\<not> isspace (hd a)" "b \<noteq> []" "\<not> isspace (last b)"
  shows "strip (a @ TAB # b @ [LF]) = a @ TAB # b"
proof -
  have front: "dropWhile isspace (a @ TAB # b @ [LF]) = a @ TAB # b @ [LF]"
    using assms(1,2) by (intro dropWhile_hd) simp_all
  have "rev (a @ TAB # b @ [LF]) = LF # (rev b @ TAB # rev a)" by simp
  then have "dropWhile isspace (rev (a @ TAB # b @ [LF])) = dropWhile isspace (rev b @ TAB # rev a)"
    by (simp add: isspace_simps)
  also have "\<dots> = rev b @ TAB # rev a"
    using assms(3,4) by (intro dropWhile_hd) (simp_all add: hd_rev)
  finally show ?thesis unfolding strip_def front by simp
qed

lemma lines_acc_line:
  "LF \<notin> set s \<Longrightarrow> CR \<notin> set s \<Longrightarrow>
     lines_acc cur (s @ LF # rest) = (rev cur @ s @ [LF]) # lines_acc [] rest"
  by (induction s arbitrary: cur) auto

subsection \<open>One entry, one line\<close>

lemma join_uris:
  assumes "uris \<noteq> []" "\<forall>uri\<in>set uris. uri \<noteq> [] \<and> (\<forall>c\<in>set uri. \<not> isspace c)"
  shows "join '' '' uris \<noteq> []" "\<not> isspace (last (join '' '' uris))"
    "TAB \<notin> set (join '' '' uris)" "LF \<notin> set (join '' '' uris)" "CR \<notin> set (join '' '' uris)"
proof -
  have l: "last uris \<in> set uris" using assms(1) by (rule last_in_set)
  then have ne: "last uris \<noteq> []" using assms(2) by blast
  show "join '' '' uris \<noteq> []" using l ne by (intro join_nonempty) blast
  have "last (join '' '' uris) = last (last uris)" using assms(1) ne by (rule last_join)
  moreover have "last (last uris) \<in> set (last uris)" using ne by (rule last_in_set)
  ultimately show "\<not> isspace (last (join '' '' uris))" using assms(2) l by metis
  have sub: "set (join '' '' uris) \<subseteq> set '' '' \<union> \<Union> (set ` set uris)" by (rule set_join)
  have other: "c = CHR '' ''" if "c \<in> set (join '' '' uris)" "isspace c" for c
  proof (rule ccontr)
    assume "c \<noteq> CHR '' ''"
    then have "c \<in> \<Union> (set ` set uris)" using that(1) sub by auto
    then obtain uri where "uri \<in> set uris" "c \<in> set uri" by blast
    then show False using assms(2) that(2) by blast
  qed
  show "TAB \<notin> set (join '' '' uris)" using other [of TAB] isspace_simps by auto
  show "LF \<notin> set (join '' '' uris)" using other [of LF] isspace_simps by auto
  show "CR \<notin> set (join '' '' uris)" using other [of CR] isspace_simps by auto
qed

lemma entry_line:
  assumes "label \<noteq> []" "\<not> isspace (hd label)" "TAB \<notin> set label"
    and "uris \<noteq> []" "\<forall>uri\<in>set uris. uri \<noteq> [] \<and> (\<forall>c\<in>set uri. \<not> isspace c)"
  shows "split_sep TAB (strip (label @ [TAB] @ join '' '' uris @ [LF])) = [label, join '' '' uris]"
    and "split (join '' '' uris) = uris"
proof -
  note j = join_uris [OF assms(4,5)]
  have "strip (label @ TAB # join '' '' uris @ [LF]) = label @ TAB # join '' '' uris"
    using assms(1,2) j(1,2) by (rule strip_line)
  moreover have "split_sep TAB (label @ TAB # join '' '' uris) = [label, join '' '' uris]"
    using assms(3) j(3) by (rule split_sep_two)
  ultimately show "split_sep TAB (strip (label @ [TAB] @ join '' '' uris @ [LF]))
      = [label, join '' '' uris]" by simp
  show "split (join '' '' uris) = uris" using assms(5) by (rule split_join)
qed

lemma file_lines_save_index:
  assumes "\<forall>(label, uris)\<in>set index.
      LF \<notin> set label \<and> CR \<notin> set label
      \<and> uris \<noteq> [] \<and> (\<forall>uri\<in>set uris. uri \<noteq> [] \<and> (\<forall>c\<in>set uri. \<not> isspace c))"
  shows "file_lines (save_index index)
           = map (\<lambda>(label, uris). label @ [TAB] @ join '' '' uris @ [LF]) index"
  using assms
proof (induction index)
  case Nil
  then show ?case by (simp add: file_lines_def save_index_def)
next
  case (Cons entry rest)
  obtain label uris where entry: "entry = (label, uris)" by (cases entry)
  have ok: "LF \<notin> set label" "CR \<notin> set label" "uris \<noteq> []"
    "\<forall>uri\<in>set uris. uri \<noteq> [] \<and> (\<forall>c\<in>set uri. \<not> isspace c)"
    using Cons.prems entry by auto
  note j = join_uris [OF ok(3,4)]
  let ?s = "label @ TAB # join '' '' uris"
  have "LF \<notin> set ?s" "CR \<notin> set ?s" using ok(1,2) j(4,5) by simp_all
  then have "lines_acc [] (?s @ LF # save_index rest) = (rev [] @ ?s @ [LF]) # lines_acc [] (save_index rest)"
    by (rule lines_acc_line)
  moreover have "save_index (entry # rest) = ?s @ LF # save_index rest"
    by (simp add: save_index_def entry)
  moreover have "lines_acc [] (save_index rest)
      = map (\<lambda>(label, uris). label @ [TAB] @ join '' '' uris @ [LF]) rest"
    using Cons by (simp add: file_lines_def)
  ultimately show ?case by (simp add: file_lines_def entry)
qed

lemma load_index_loop_lines:
  assumes "\<forall>(label, uris)\<in>set index.
      label \<noteq> [] \<and> \<not> isspace (hd label) \<and> TAB \<notin> set label
      \<and> uris \<noteq> [] \<and> (\<forall>uri\<in>set uris. uri \<noteq> [] \<and> (\<forall>c\<in>set uri. \<not> isspace c))"
    and "distinct (map fst (loaded @ index))"
  shows "load_index_loop (map (\<lambda>(label, uris). label @ [TAB] @ join '' '' uris @ [LF]) index) loaded
           = Inr (loaded @ index)"
  using assms
proof (induction index arbitrary: loaded)
  case Nil
  then show ?case by simp
next
  case (Cons entry rest)
  obtain label uris where entry: "entry = (label, uris)" by (cases entry)
  have ok: "label \<noteq> []" "\<not> isspace (hd label)" "TAB \<notin> set label" "uris \<noteq> []"
    "\<forall>uri\<in>set uris. uri \<noteq> [] \<and> (\<forall>c\<in>set uri. \<not> isspace c)"
    using Cons.prems(1) entry by auto
  note line = entry_line [OF ok]
  have "label \<notin> fst ` set loaded" using Cons.prems(2) entry by auto
  then have upd: "AList.update label uris loaded = loaded @ [(label, uris)]"
    by (rule update_fresh)
  have rest: "\<forall>(label, uris)\<in>set rest.
      label \<noteq> [] \<and> \<not> isspace (hd label) \<and> TAB \<notin> set label
      \<and> uris \<noteq> [] \<and> (\<forall>uri\<in>set uris. uri \<noteq> [] \<and> (\<forall>c\<in>set uri. \<not> isspace c))"
    using Cons.prems(1) by simp
  have "distinct (map fst ((loaded @ [(label, uris)]) @ rest))"
    using Cons.prems(2) entry by simp
  from Cons.IH [OF rest this]
  show ?case using line upd by (simp add: entry)
qed

lemma load_save_storable:
  assumes "distinct (map fst index)"
    and "\<forall>(label, uris)\<in>set index.
      label \<noteq> [] \<and> \<not> isspace (hd label)
      \<and> TAB \<notin> set label \<and> LF \<notin> set label \<and> CR \<notin> set label
      \<and> uris \<noteq> [] \<and> (\<forall>uri\<in>set uris. uri \<noteq> [] \<and> (\<forall>c\<in>set uri. \<not> isspace c))"
  shows "load_index (save_index index) = Inr index"
proof -
  have "file_lines (save_index index)
          = map (\<lambda>(label, uris). label @ [TAB] @ join '' '' uris @ [LF]) index"
    using assms(2) by (intro file_lines_save_index) fast
  moreover have "load_index_loop
      (map (\<lambda>(label, uris). label @ [TAB] @ join '' '' uris @ [LF]) index) [] = Inr ([] @ index)"
    using assms by (intro load_index_loop_lines) (fast, simp)
  ultimately show ?thesis by (simp add: load_index_def)
qed




section \<open>A built index can be stored\<close>

lemma split_acc_words:
  "\<forall>c\<in>set cur. \<not> isspace c \<Longrightarrow>
     \<forall>w\<in>set (split_acc cur s). w \<noteq> [] \<and> (\<forall>c\<in>set w. \<not> isspace c)"
proof (induction s arbitrary: cur)
  case Nil
  then show ?case by simp
next
  case (Cons a s)
  show ?case
  proof (cases "isspace a")
    case True
    have "\<forall>w\<in>set (split_acc [] s). w \<noteq> [] \<and> (\<forall>c\<in>set w. \<not> isspace c)"
      by (rule Cons.IH) simp
    then show ?thesis using True Cons.prems by simp
  next
    case False
    have "\<forall>w\<in>set (split_acc (a # cur) s). w \<noteq> [] \<and> (\<forall>c\<in>set w. \<not> isspace c)"
      using False Cons.prems by (intro Cons.IH) simp
    then show ?thesis using False by simp
  qed
qed

lemma hd_join: "ws \<noteq> [] \<Longrightarrow> hd ws \<noteq> [] \<Longrightarrow> hd (join sep ws) = hd (hd ws)"
  by (induction sep ws rule: join.induct) auto

lemma sort_phrase_key:
  assumes "sort_phrase phrase \<noteq> []"
  shows "\<not> isspace (hd (sort_phrase phrase))"
    and "TAB \<notin> set (sort_phrase phrase)" "LF \<notin> set (sort_phrase phrase)"
    and "CR \<notin> set (sort_phrase phrase)"
proof -
  let ?ws = "sort (split phrase)"
  have words: "\<forall>w\<in>set ?ws. w \<noteq> [] \<and> (\<forall>c\<in>set w. \<not> isspace c)"
    using split_acc_words [of "[]" phrase] by (simp add: split_def)
  have ne: "?ws \<noteq> []" using assms by (auto simp: sort_phrase_def)
  then have h: "hd ?ws \<in> set ?ws" by (rule hd_in_set)
  then have "hd ?ws \<noteq> []" using words by blast
  then have "hd (join '' '' ?ws) = hd (hd ?ws)" "hd (hd ?ws) \<in> set (hd ?ws)"
    using ne by (simp_all add: hd_join)
  then show "\<not> isspace (hd (sort_phrase phrase))"
    using words h unfolding sort_phrase_def by metis
  show "TAB \<notin> set (sort_phrase phrase)" "LF \<notin> set (sort_phrase phrase)"
    "CR \<notin> set (sort_phrase phrase)"
    unfolding sort_phrase_def using join_uris(3-5) [OF ne words] by blast+
qed

lemma insert_nonempty: "List.insert x xs \<noteq> []"
  by (cases "x \<in> set xs") auto

lemma index_add_entries:
  assumes "\<forall>(label, uris)\<in>set index. Q label \<and> uris \<noteq> [] \<and> (\<forall>uri\<in>set uris. P uri)"
    and "Q key" "P concept"
  shows "\<forall>(label, uris)\<in>set (index_add key concept index).
           Q label \<and> uris \<noteq> [] \<and> (\<forall>uri\<in>set uris. P uri)"
proof -
  define old where "old = (case map_of index key of None \<Rightarrow> [] | Some uris \<Rightarrow> uris)"
  have "\<forall>uri\<in>set old. P uri"
  proof (cases "map_of index key")
    case None
    then show ?thesis by (simp add: old_def)
  next
    case (Some uris)
    then have "(key, uris) \<in> set index" by (rule map_of_SomeD)
    then show ?thesis using assms(1) Some by (auto simp: old_def)
  qed
  then have new: "\<forall>uri\<in>set (List.insert concept old). P uri"
    using assms(3) by simp
  have ne: "List.insert concept old \<noteq> []" by (rule insert_nonempty)
  have "entry = (key, List.insert concept old) \<or> entry \<in> set index"
    if "entry \<in> set (AList.update key (List.insert concept old) index)" for entry
    using that set_update_subset [of key "List.insert concept old" index] by blast
  then have "Q label \<and> uris \<noteq> [] \<and> (\<forall>uri\<in>set uris. P uri)"
    if "(label, uris) \<in> set (AList.update key (List.insert concept old) index)" for label uris
    using that assms(1,2) new ne by fastforce
  then show ?thesis
    unfolding index_add_def old_def [symmetric] by blast
qed

lemma fold_index_add_entries:
  assumes "\<forall>(label, uris)\<in>set index. Q label \<and> uris \<noteq> [] \<and> (\<forall>uri\<in>set uris. P uri)"
    and "distinct (map fst index)" and "\<forall>label. Q (f label)" and "P concept"
  shows "(\<forall>(label, uris)\<in>set (fold (\<lambda>label. index_add (f label) concept) labels index).
            Q label \<and> uris \<noteq> [] \<and> (\<forall>uri\<in>set uris. P uri))
       \<and> distinct (map fst (fold (\<lambda>label. index_add (f label) concept) labels index))"
  using assms(1,2)
proof (induction labels arbitrary: index)
  case Nil
  then show ?case by simp
next
  case (Cons label labels)
  have "Q (f label)" using assms(3) by simp
  with Cons.prems(1)
  have "\<forall>(label, uris)\<in>set (index_add (f label) concept index).
          Q label \<and> uris \<noteq> [] \<and> (\<forall>uri\<in>set uris. P uri)"
    using assms(4) by (rule index_add_entries)
  moreover have "distinct (map fst (index_add (f label) concept index))"
    unfolding index_add_def using Cons.prems(2) by (rule distinct_update)
  ultimately show ?case using Cons.IH by simp
qed

lemma create_index_loop_entries:
  assumes "create_index_loop p normalize_word g concepts index = Inr result"
    and "\<forall>(label, uris)\<in>set index. Q label \<and> uris \<noteq> [] \<and> (\<forall>uri\<in>set uris. P uri)"
    and "distinct (map fst index)"
    and "\<forall>label. Q (normalize_label normalize_word (remove_parentheses p) label)"
    and "\<forall>concept\<in>set concepts. P concept"
  shows "(\<forall>(label, uris)\<in>set result. Q label \<and> uris \<noteq> [] \<and> (\<forall>uri\<in>set uris. P uri))
       \<and> distinct (map fst result)"
  using assms(1,2,3,5)
proof (induction concepts arbitrary: index)
  case Nil
  then show ?case by simp
next
  case (Cons concept rest)
  have rest: "\<forall>concept\<in>set rest. P concept" using Cons.prems(4) by simp
  have concept: "P concept" using Cons.prems(4) by simp
  show ?case
  proof (cases "(concept, OWL_deprecated, Literal_True) \<in> set g")
    case True
    then have "create_index_loop p normalize_word g rest index = Inr result"
      using Cons.prems(1) by simp
    then show ?thesis using Cons.prems(2,3) rest by (rule Cons.IH)
  next
    case False
    define f where "f = (\<lambda>label. normalize_label normalize_word (remove_parentheses p) (str label))"
    obtain lts labels where
      loop: "create_index_loop p normalize_word g rest
        (fold (\<lambda>label. index_add (f label) concept) labels index) = Inr result"
      using Cons.prems(1) False unfolding f_def by (auto split: sum.splits)
    have "\<forall>label. Q (f label)" unfolding f_def using assms(4) by simp
    with Cons.prems(2,3)
    have "(\<forall>(label, uris)\<in>set (fold (\<lambda>label. index_add (f label) concept) labels index).
            Q label \<and> uris \<noteq> [] \<and> (\<forall>uri\<in>set uris. P uri))
       \<and> distinct (map fst (fold (\<lambda>label. index_add (f label) concept) labels index))"
      using concept by (rule fold_index_add_entries)
    then show ?thesis using Cons.IH [OF loop _ _ rest] by blast
  qed
qed

lemma create_index_returns:
  assumes "label_types p = Inr lts"
    and "\<forall>(s, pr, ob)\<in>set g. pr \<in> set lts \<longrightarrow> (\<exists>text lang. ob = Literal text lang)"
  shows "\<exists>index. create_index p normalize_word g = Inr index"
proof -
  have fl: "\<exists>found. filter_language lang obs = Inr found"
    if "\<forall>ob\<in>set obs. \<exists>text lang. ob = Literal text lang" for lang obs
    using that by (induction obs) auto
  have gl: "\<exists>labels. get_concept_labels p g concept ts = Inr labels"
    if "set ts \<subseteq> set lts" for concept ts
    using that
  proof (induction ts)
    case Nil
    then show ?case by simp
  next
    case (Cons t ts)
    have "\<forall>ob\<in>set (objects g concept t). \<exists>text lang. ob = Literal text lang"
      using assms(2) Cons.prems by (fastforce simp: objects_def)
    then obtain found where "filter_language (language p) (objects g concept t) = Inr found"
      using fl by blast
    moreover obtain labels where "get_concept_labels p g concept ts = Inr labels"
      using Cons by auto
    ultimately show ?case by simp
  qed
  have loop: "\<exists>result. create_index_loop p normalize_word g concepts index = Inr result"
    for concepts index
  proof (induction concepts arbitrary: index)
    case Nil
    then show ?case by simp
  next
    case (Cons concept rest)
    obtain labels where "get_concept_labels p g concept lts = Inr labels"
      using gl [of lts concept] by auto
    then show ?case using Cons assms(1) by simp
  qed
  obtain result where
    "create_index_loop p normalize_word g (subjects g RDF_type SKOS_Concept) [] = Inr result"
    using loop by blast
  then show ?thesis by (simp add: create_index_def)
qed

text \<open>
  The keys that \<^verbatim>\<open>_create_index\<close> leaves in the index are normalized labels other than
  the empty string: they start with no white space and hold no tab and no line end. So
  an index built from a graph whose concepts have URIs without white space is one that
  \<^verbatim>\<open>_save_index\<close> and \<^verbatim>\<open>_load_index\<close> give back.
\<close>

lemma create_index_round_trip:
  assumes "create_index p normalize_word g = Inr index"
    and "\<forall>concept\<in>set (subjects g RDF_type SKOS_Concept).
           concept \<noteq> [] \<and> (\<forall>c\<in>set concept. \<not> isspace c)"
  shows "load_index (save_index index) = Inr index"
proof -
  define Q where "Q = (\<lambda>label. label = [] \<or> (\<not> isspace (hd label)
              \<and> TAB \<notin> set label \<and> LF \<notin> set label \<and> CR \<notin> set label))"
  define P where "P = (\<lambda>uri. uri \<noteq> [] \<and> (\<forall>c\<in>set uri. \<not> isspace c))"
  obtain built where built:
    "create_index_loop p normalize_word g (subjects g RDF_type SKOS_Concept) [] = Inr built"
    and index: "index = AList.delete [] built"
    using assms(1) by (auto simp: create_index_def split: sum.splits)
  have keys: "\<forall>label. Q (normalize_label normalize_word (remove_parentheses p) label)"
    unfolding normalize_label_def Q_def using sort_phrase_key by blast
  have concepts: "\<forall>concept\<in>set (subjects g RDF_type SKOS_Concept). P concept"
    unfolding P_def using assms(2) by simp
  have empty: "\<forall>(label, uris)\<in>set []. Q label \<and> uris \<noteq> [] \<and> (\<forall>uri\<in>set uris. P uri)"
    by simp
  have "distinct (map fst ([] :: index))" by simp
  with built empty
  have inv: "(\<forall>(label, uris)\<in>set built. Q label \<and> uris \<noteq> [] \<and> (\<forall>uri\<in>set uris. P uri))
       \<and> distinct (map fst built)"
    using keys concepts by (rule create_index_loop_entries)
  have d: "distinct (map fst index)"
    unfolding index using inv by (intro AList.distinct_delete) simp
  have "label \<noteq> [] \<and> \<not> isspace (hd label)
      \<and> TAB \<notin> set label \<and> LF \<notin> set label \<and> CR \<notin> set label
      \<and> uris \<noteq> [] \<and> (\<forall>uri\<in>set uris. uri \<noteq> [] \<and> (\<forall>c\<in>set uri. \<not> isspace c))"
    if entry: "(label, uris) \<in> set index" for label uris
  proof -
    have "(label, uris) \<in> set built" using entry unfolding index by (simp add: AList.delete_eq)
    then have e: "Q label" "uris \<noteq> []" "\<forall>uri\<in>set uris. P uri" using inv by auto
    have "label \<in> fst ` set index" using entry by force
    moreover have "[] \<notin> fst ` set index" unfolding index by (rule AList.delete_notin_dom)
    ultimately have "label \<noteq> []" by metis
    then show ?thesis using e unfolding Q_def P_def by simp
  qed
  then have "\<forall>(label, uris)\<in>set index.
      label \<noteq> [] \<and> \<not> isspace (hd label)
      \<and> TAB \<notin> set label \<and> LF \<notin> set label \<and> CR \<notin> set label
      \<and> uris \<noteq> [] \<and> (\<forall>uri\<in>set uris. uri \<noteq> [] \<and> (\<forall>c\<in>set uri. \<not> isspace c))"
    by blast
  with d show ?thesis by (rule load_save_storable)
qed

end
